theory Spec2Isabelle
  imports Main "HOL-Library.Sublist"
begin

section \<open>Data model of the failed-operations client\<close>

text \<open>
  The TypeScript client receives JSON, so a status is a plain string and every optional
  field is an \<open>option\<close>. The declarations of \<open>FailedOperation\<close> and
  \<open>FailedOperationsResponse\<close> are those listed in the data-model section of
  \<open>PRPs/fix-error-operation-visibility.md\<close>; of an operation only the fields the code
  reads are kept. That listing gives \<open>original_request\<close> a fourth field,
  \<open>max_concurrent\<close>, which the hook never reads.
  The fields of the two request records carry a prefix, since a record field name is
  global in HOL: \<open>orig_url\<close> is \<open>original_request.url\<close>, and so on.
\<close>

datatype js_error = Error string

record original_request_t =
  orig_url :: string
  orig_max_depth :: "int option"
  orig_max_concurrent :: "int option"
  orig_tags :: "string list option"

text \<open>The object literal handed to \<open>knowledgeService.crawlUrl\<close>.\<close>

record crawl_request =
  crawl_url :: string
  crawl_max_depth :: "int option"
  crawl_tags :: "string list option"

text \<open>An element of \<open>op.logs\<close> is either a plain string or a timestamped object.\<close>

datatype log_entry = LogString string | LogObject string string

record failed_operation =
  progressId :: string
  status :: string
  url :: "string option"
  currentUrl :: "string option"
  error :: "string option"
  error_time :: "string option"
  logs :: "log_entry list option"
  original_request :: "original_request_t option"

record failed_operations_response =
  operations :: "failed_operation list"
  count :: nat
  timestamp :: string

section \<open>progressService.listFailedOperations\<close>

text \<open>
  \<open>callAPIWithETag\<close> is imported from the shared API client; it is a parameter here,
  a function from the request path to either a thrown error or the decoded response.
  The \<open>await\<close> propagates a rejection unchanged.
\<close>

definition is_failed_status :: "failed_operation \<Rightarrow> bool" where
  "is_failed_status op \<longleftrightarrow> status op = ''error'' \<or> status op = ''failed''"

definition listFailedOperations ::
  "(string \<Rightarrow> js_error + failed_operations_response) \<Rightarrow> js_error + failed_operations_response" where
  "listFailedOperations callAPIWithETag =
     (case callAPIWithETag ''/api/progress/?include_failed=true'' of
        Inl e \<Rightarrow> Inl e
      | Inr response \<Rightarrow>
          (let failedOperations = filter is_failed_status (operations response)
           in Inr \<lparr>operations = failedOperations,
                    count = length failedOperations,
                    timestamp = timestamp response\<rparr>))"

text \<open>An endpoint used to exercise the service: two failed, one completed, one running.\<close>

definition mk_op :: "string \<Rightarrow> string \<Rightarrow> failed_operation" where
  "mk_op pid st = \<lparr>progressId = pid, status = st, url = None, currentUrl = None,
     error = None, error_time = None, logs = None, original_request = None\<rparr>"

definition sample_endpoint :: "string \<Rightarrow> js_error + failed_operations_response" where
  "sample_endpoint path =
     (if path = ''/api/progress/?include_failed=true''
      then Inr \<lparr>operations = [mk_op ''a'' ''error'', mk_op ''b'' ''completed'',
                                mk_op ''c'' ''processing'', mk_op ''d'' ''failed''],
                 count = 4, timestamp = ''2025-01-01T00:00:00''\<rparr>
      else Inl (Error ''404''))"

section \<open>FailedOperationsSection: local state, handlers and rendering\<close>

text \<open>
  \<open>toggleExpanded\<close> is the state updater passed to \<open>setExpandedOps\<close>: it copies the
  previous set, deletes the id when present and adds it otherwise.
\<close>

definition toggleExpanded :: "string \<Rightarrow> string set \<Rightarrow> string set" where
  "toggleExpanded pid prev =
     (let next = prev in if pid \<in> next then next - {pid} else insert pid next)"

text \<open>
  \<open>Array.prototype.slice(start)\<close> with one argument: a negative start counts from the
  end and is clamped at 0, a positive one is clamped at the length.
\<close>

definition js_slice :: "int \<Rightarrow> 'a list \<Rightarrow> 'a list" where
  "js_slice start xs =
     (let len = int (length xs);
          k = (if start < 0 then max (len + start) 0 else min start len)
      in drop (nat k) xs)"

text \<open>JavaScript truthiness of an optional string: absent and empty are both falsy.\<close>

fun truthy :: "string option \<Rightarrow> bool" where
  "truthy None = False"
| "truthy (Some s) = (s \<noteq> [])"

text \<open>\<open>a || b || c\<close> on optional strings with a literal at the end.\<close>

definition or_else :: "string option \<Rightarrow> string \<Rightarrow> string" where
  "or_else a b = (if truthy a then the a else b)"

text \<open>
  Date formatting depends on the browser's locale; the two formatters are parameters.
\<close>

record date_format =
  toLocaleString :: "string \<Rightarrow> string"
  toLocaleTimeString :: "string \<Rightarrow> string"

record log_line =
  line_key :: string
  line_time :: string
  line_message :: string

record details_view =
  full_error :: "string option"
  crawl_logs :: "log_line list option"

record card_view =
  card_key :: string
  card_title :: string
  card_failed_at :: string
  card_preview :: string
  card_chevron_up :: bool
  card_retry_disabled :: bool
  card_details :: "details_view option"


record section_state =
  expandedOps :: "string set"
  confirmRemove :: "failed_operation option"

text \<open>What the three hooks hand to the component on a render.\<close>

record section_hooks =
  failedOps :: "failed_operations_response option"
  isLoading :: bool
  retryIsPending :: bool

text \<open>
  The type guard \<open>typeof log !== "string"\<close> followed by the \<open>map\<close>: a string entry is
  dropped, an object entry becomes one rendered line keyed by its timestamp.
\<close>

fun render_log :: "date_format \<Rightarrow> log_entry \<Rightarrow> log_line option" where
  "render_log fmt (LogString s) = None"
| "render_log fmt (LogObject ts msg) =
     Some \<lparr>line_key = ts, line_time = toLocaleTimeString fmt ts, line_message = msg\<rparr>"

definition render_logs :: "date_format \<Rightarrow> failed_operation \<Rightarrow> log_line list option" where
  "render_logs fmt op =
     (case logs op of
        None \<Rightarrow> None
      | Some ls \<Rightarrow>
          if length ls > 0
          then Some (List.map_filter (render_log fmt) (js_slice (- 10) ls))
          else None)"

definition render_details :: "date_format \<Rightarrow> failed_operation \<Rightarrow> details_view" where
  "render_details fmt op = \<lparr>full_error = error op, crawl_logs = render_logs fmt op\<rparr>"

definition render_card ::
  "date_format \<Rightarrow> section_hooks \<Rightarrow> section_state \<Rightarrow> failed_operation \<Rightarrow> card_view" where
  "render_card fmt h s op =
     \<lparr>card_key = progressId op,
      card_title = (if truthy (url op) then the (url op) else or_else (currentUrl op) ''Unknown URL''),
      card_failed_at = ''Failed '' @ (if truthy (error_time op)
                                     then toLocaleString fmt (the (error_time op))
                                     else ''recently''),
      card_preview = or_else (error op) ''Unknown error'',
      card_chevron_up = (progressId op \<in> expandedOps s),
      card_retry_disabled = retryIsPending h,
      card_details = (if progressId op \<in> expandedOps s
                      then Some (render_details fmt op) else None)\<rparr>"








section \<open>useRetryKnowledgeSource\<close>

text \<open>
  \<open>knowledgeService.crawlUrl\<close> is the job-submission collaborator. It is a parameter: a
  function from the request and the server's state to a result and the new server
  state. \<open>mutationFn\<close> throws before calling it when \<open>original_request?.url\<close> is falsy.
\<close>

definition missing_msg :: string where
  "missing_msg = ''Cannot retry: Original request data missing''"

definition mutationFn ::
  "(crawl_request \<Rightarrow> 's \<Rightarrow> (js_error + 'r) \<times> 's) \<Rightarrow> failed_operation \<Rightarrow> 's
     \<Rightarrow> (js_error + 'r) \<times> 's" where
  "mutationFn crawlUrl failedOp srv =
     (case original_request failedOp of
        None \<Rightarrow> (Inl (Error missing_msg), srv)
      | Some req \<Rightarrow>
          if orig_url req = [] then (Inl (Error missing_msg), srv)
          else crawlUrl \<lparr>crawl_url = orig_url req,
                         crawl_max_depth = orig_max_depth req,
                         crawl_tags = orig_tags req\<rparr> srv)"

text \<open>
  The observer's side: the toasts shown and the query cache. A query key is a list of
  strings; \<open>removeQueries\<close> with \<open>exact: true\<close> drops the one query with that key,
  \<open>invalidateQueries\<close> marks stale every cached query whose key starts with the given one.
  The key factory \<open>progressKeys\<close> lives in \<open>useProgressQueries\<close> and is a parameter.
\<close>

type_synonym query_key = "string list"

record 'd client =
  toasts :: "(string \<times> string) list"
  queries :: "query_key \<rightharpoonup> 'd"
  stale :: "query_key set"

record progress_keys =
  detail :: "string \<Rightarrow> query_key"
  failed :: query_key
  active :: query_key

definition showToast :: "string \<Rightarrow> string \<Rightarrow> 'd client \<Rightarrow> 'd client" where
  "showToast msg kind c = c\<lparr>toasts := toasts c @ [(msg, kind)]\<rparr>"

definition removeQueries :: "query_key \<Rightarrow> 'd client \<Rightarrow> 'd client" where
  "removeQueries k c = c\<lparr>queries := (queries c)(k := None), stale := stale c - {k}\<rparr>"

definition invalidateQueries :: "query_key \<Rightarrow> 'd client \<Rightarrow> 'd client" where
  "invalidateQueries k c =
     c\<lparr>stale := stale c \<union> {q. queries c q \<noteq> None \<and> prefix k q}\<rparr>"

definition onSuccess :: "progress_keys \<Rightarrow> 'r \<Rightarrow> failed_operation \<Rightarrow> 'd client \<Rightarrow> 'd client" where
  "onSuccess progressKeys data failedOp c =
     (let c1 = showToast (''Crawl restarted for '' @
                 (case original_request failedOp of
                    None \<Rightarrow> ''undefined'' | Some req \<Rightarrow> orig_url req)) ''success'' c;
          c2 = removeQueries (detail progressKeys (progressId failedOp)) c1;
          c3 = invalidateQueries (failed progressKeys) c2
      in invalidateQueries (active progressKeys) c3)"

fun onError :: "js_error \<Rightarrow> 'd client \<Rightarrow> 'd client" where
  "onError (Error message) c = showToast message ''error'' c"

text \<open>
  \<open>retryMutation.mutate(op)\<close>: run \<open>mutationFn\<close>, then \<open>onSuccess\<close> or \<open>onError\<close>.
\<close>

definition retry_mutate ::
  "progress_keys \<Rightarrow> (crawl_request \<Rightarrow> 's \<Rightarrow> (js_error + 'r) \<times> 's) \<Rightarrow> failed_operation
     \<Rightarrow> 'd client \<times> 's \<Rightarrow> 'd client \<times> 's" where
  "retry_mutate progressKeys crawlUrl failedOp w =
     (case mutationFn crawlUrl failedOp (snd w) of
        (Inl e, srv') \<Rightarrow> (onError e (fst w), srv')
      | (Inr data, srv') \<Rightarrow> (onSuccess progressKeys data failedOp (fst w), srv'))"

section \<open>The operation registry, its state machine and its cleanup scheduler\<close>

text \<open>
  Modelled from the spec: the server-side Operation Registry (section 4.1), the State
  Machine (4.2) and the Cleanup Scheduler (4.3) are Python code that is not among the
  sources. Time is counted in the spec's time-units; an id is a natural number handed
  out in increasing order.
\<close>

datatype op_state =
  Queued | Starting | Analyzing | Processing | Completed | Errored | Failed | Cancelled

fun terminal :: "op_state \<Rightarrow> bool" where
  "terminal Completed = True"
| "terminal Errored = True"
| "terminal Failed = True"
| "terminal Cancelled = True"
| "terminal _ = False"

fun failure_class :: "op_state \<Rightarrow> bool" where
  "failure_class Errored = True"
| "failure_class Failed = True"
| "failure_class _ = False"

fun allowed_edge :: "op_state \<Rightarrow> op_state \<Rightarrow> bool" where
  "allowed_edge Queued t = (t = Starting)"
| "allowed_edge Starting t = (t \<in> {Analyzing, Processing, Errored, Failed, Cancelled})"
| "allowed_edge Analyzing t = (t \<in> {Processing, Completed, Errored, Failed, Cancelled})"
| "allowed_edge Processing t = (t \<in> {Completed, Errored, Failed, Cancelled})"
| "allowed_edge _ t = False"

record operation =
  op_status :: op_state
  op_progress_percent :: nat
  op_log :: "(nat \<times> string) list"
  op_error_message :: "string option"
  op_error_time :: "nat option"
  op_original_request :: crawl_request

record retention_config =
  failure_retention :: nat
  benign_retention :: nat

definition default_config :: retention_config where
  "default_config = \<lparr>failure_retention = 300, benign_retention = 30\<rparr>"

definition retention_window :: "retention_config \<Rightarrow> op_state \<Rightarrow> nat" where
  "retention_window cfg st =
     (if failure_class st then failure_retention cfg else benign_retention cfg)"

record registry =
  records :: "nat \<rightharpoonup> operation"
  next_id :: nat
  pending :: "nat \<rightharpoonup> nat"
  now :: nat
  config :: retention_config

datatype reg_error = UnknownOperation | InvalidTransition

definition empty_registry :: "retention_config \<Rightarrow> registry" where
  "empty_registry cfg =
     \<lparr>records = Map.empty, next_id = 0, pending = Map.empty, now = 0, config = cfg\<rparr>"

text \<open>Modelled from the spec: \<open>create(type, original_request) -> id\<close>.\<close>

definition create :: "registry \<Rightarrow> crawl_request \<Rightarrow> nat \<times> registry" where
  "create reg req =
     (next_id reg,
      reg\<lparr>records := (records reg)(next_id reg \<mapsto>
              \<lparr>op_status = Queued, op_progress_percent = 0, op_log = [],
               op_error_message = None, op_error_time = None, op_original_request = req\<rparr>),
          next_id := Suc (next_id reg)\<rparr>)"

text \<open>Modelled from the spec: \<open>get(id) -> Operation | NotFound\<close>.\<close>

definition get :: "registry \<Rightarrow> nat \<Rightarrow> reg_error + operation" where
  "get reg i = (case records reg i of None \<Rightarrow> Inl UnknownOperation | Some op \<Rightarrow> Inr op)"

text \<open>
  Modelled from the spec: \<open>update\<close> fails with \<open>UnknownOperation\<close> on an absent id and with
  \<open>InvalidTransition\<close> on a terminal record; otherwise it raises the progress (never
  lowers it, capped at 100) and appends to the log.
\<close>

definition update :: "registry \<Rightarrow> nat \<Rightarrow> nat \<Rightarrow> string \<Rightarrow> reg_error + registry" where
  "update reg i pct msg =
     (case records reg i of
        None \<Rightarrow> Inl UnknownOperation
      | Some op \<Rightarrow>
          if terminal (op_status op) then Inl InvalidTransition
          else Inr (reg\<lparr>records := (records reg)(i \<mapsto>
                 op\<lparr>op_progress_percent := max (op_progress_percent op) (min pct 100),
                    op_log := op_log op @ [(now reg, msg)]\<rparr>)\<rparr>))"

text \<open>
  Modelled from the spec: \<open>remove(id) -> ok\<close> deletes the record and cancels its pending
  eviction; there is no failing branch.
\<close>

definition remove :: "registry \<Rightarrow> nat \<Rightarrow> reg_error + registry" where
  "remove reg i =
     Inr (reg\<lparr>records := (records reg)(i := None), pending := (pending reg)(i := None)\<rparr>)"

text \<open>
  Modelled from the spec: the Cleanup Scheduler's \<open>schedule(id, delay)\<close> either hands
  back a task or fails (section 7, \<open>SchedulingFailure\<close>, for instance when resources
  are exhausted). Which of the two happens is decided outside the registry, so the
  outcome is an input of the transition.
\<close>

datatype sched_outcome = Scheduled | SchedulingFailure

text \<open>
  Modelled from the spec: a transition succeeds iff it is an edge of the graph; entering
  a failure state records the message and its time. Entering a terminal state schedules
  the eviction after the window of the state's class. When the scheduling fails, the
  registry falls back to the immediate synchronous eviction, which is \<open>remove\<close> (of the
  two fallbacks that section 7 allows, this one is modelled).
\<close>

definition transition ::
  "registry \<Rightarrow> nat \<Rightarrow> op_state \<Rightarrow> string \<Rightarrow> sched_outcome \<Rightarrow> reg_error + registry" where
  "transition reg i st msg outcome =
     (case records reg i of
        None \<Rightarrow> Inl UnknownOperation
      | Some op \<Rightarrow>
          if \<not> allowed_edge (op_status op) st then Inl InvalidTransition
          else
            let op' = (if failure_class st
                       then op\<lparr>op_status := st, op_error_message := Some msg,
                               op_error_time := Some (now reg)\<rparr>
                       else op\<lparr>op_status := st\<rparr>);
                reg' = reg\<lparr>records := (records reg)(i \<mapsto> op')\<rparr>
            in if terminal st
               then (case outcome of
                       Scheduled \<Rightarrow>
                         Inr (reg'\<lparr>pending := (pending reg)(i \<mapsto>
                                now reg + retention_window (config reg) st)\<rparr>)
                     | SchedulingFailure \<Rightarrow> remove reg' i)
               else Inr reg')"

text \<open>
  Modelled from the spec: one time-unit passes, and every eviction whose delay has
  elapsed runs, which removes the record as \<open>remove\<close> does.
\<close>

definition due :: "registry \<Rightarrow> nat \<Rightarrow> nat \<Rightarrow> bool" where
  "due reg t i = (case pending reg i of None \<Rightarrow> False | Some d \<Rightarrow> d \<le> t)"

definition tick :: "registry \<Rightarrow> registry" where
  "tick reg =
     (let t = Suc (now reg)
      in reg\<lparr>now := t,
             records := (\<lambda>i. if due reg t i then None else records reg i),
             pending := (\<lambda>i. if due reg t i then None else pending reg i)\<rparr>)"

text \<open>
  Modelled from the spec: the job-submission collaborator \<open>submit\<close> creates the
  operation and answers with its id.
\<close>

definition submit :: "crawl_request \<Rightarrow> registry \<Rightarrow> (js_error + nat) \<times> registry" where
  "submit req reg = (case create reg req of (i, reg') \<Rightarrow> (Inr i, reg'))"

datatype reg_event =
    ECreate crawl_request
  | EUpdate nat nat string
  | ETransition nat op_state string sched_outcome
  | ERemove nat
  | ETick

fun or_keep :: "registry \<Rightarrow> reg_error + registry \<Rightarrow> registry" where
  "or_keep reg (Inl e) = reg"
| "or_keep reg (Inr reg') = reg'"

fun apply_event :: "registry \<Rightarrow> reg_event \<Rightarrow> registry" where
  "apply_event reg (ECreate req) = snd (create reg req)"
| "apply_event reg (EUpdate i pct msg) = or_keep reg (update reg i pct msg)"
| "apply_event reg (ETransition i st msg outcome) = or_keep reg (transition reg i st msg outcome)"
| "apply_event reg (ERemove i) = or_keep reg (remove reg i)"
| "apply_event reg ETick = tick reg"

fun run :: "registry \<Rightarrow> reg_event list \<Rightarrow> registry" where
  "run reg [] = reg"
| "run reg (ev # evs) = run (apply_event reg ev) evs"

fun ticks :: "reg_event list \<Rightarrow> nat" where
  "ticks [] = 0"
| "ticks (ETick # evs) = Suc (ticks evs)"
| "ticks (ev # evs) = ticks evs"

section \<open>The polling gateway and the client poller\<close>








section \<open>Invariant of the registry\<close>

text \<open>
  Ids are handed out in increasing order, so every stored record has an id below
  \<open>next_id\<close>. This holds of every registry reached from the empty one.
\<close>

definition fresh_ids :: "registry \<Rightarrow> bool" where
  "fresh_ids reg \<longleftrightarrow> (\<forall>j. records reg j \<noteq> None \<longrightarrow> j < next_id reg)"

section \<open>Sample data\<close>

text \<open>Concrete operations, client cache, registry history and user session.\<close>

definition sample_request :: original_request_t where
  "sample_request = \<lparr>orig_url = ''https://x'', orig_max_depth = Some 2,
     orig_max_concurrent = Some 5, orig_tags = Some [''docs'']\<rparr>"

definition failing_op :: failed_operation where
  "failing_op = (mk_op ''p1'' ''error'')\<lparr>original_request := Some sample_request\<rparr>"

definition completed_op :: failed_operation where
  "completed_op = (mk_op ''p2'' ''completed'')\<lparr>original_request := Some sample_request\<rparr>"

definition sample_keys :: progress_keys where
  "sample_keys = \<lparr>detail = (\<lambda>pid. [''progress'', ''detail'', pid]),
     failed = [''progress'', ''failed''], active = [''progress'', ''active'']\<rparr>"

definition sample_client :: "nat client" where
  "sample_client = \<lparr>toasts = [],
     queries = [[''progress'', ''detail'', ''p1''] \<mapsto> 1, [''progress'', ''failed''] \<mapsto> 2],
     stale = {}\<rparr>"

definition plain_format :: date_format where
  "plain_format = \<lparr>toLocaleString = (\<lambda>s. s), toLocaleTimeString = (\<lambda>s. s)\<rparr>"

definition sample_logs :: "log_entry list" where
  "sample_logs =
     [LogObject ''t00'' ''m00'', LogString ''s01'', LogObject ''t02'' ''m02'',
      LogString ''s03'', LogObject ''t04'' ''m04'', LogObject ''t05'' ''m05'',
      LogString ''s06'', LogObject ''t07'' ''m07'', LogObject ''t08'' ''m08'',
      LogObject ''t09'' ''m09'', LogObject ''t10'' ''m10'', LogObject ''t11'' ''m11'']"

definition logged_op :: failed_operation where
  "logged_op = (mk_op ''p3'' ''failed'')\<lparr>logs := Some sample_logs\<rparr>"



definition sample_history :: "reg_event list" where
  "sample_history =
     [ECreate \<lparr>crawl_url = ''https://x'', crawl_max_depth = Some 2, crawl_tags = Some [''docs'']\<rparr>,
      ETransition 0 Starting [] Scheduled, ETick]"

definition sample_registry :: registry where
  "sample_registry = or_keep (run (empty_registry default_config) sample_history)
     (transition (run (empty_registry default_config) sample_history) 0 Errored
        ''memory usage exceeded'' Scheduled)"



definition inverted_config :: retention_config where
  "inverted_config = \<lparr>failure_retention = 10, benign_retention = 20\<rparr>"

definition unscheduled_registry :: registry where
  "unscheduled_registry = or_keep (run (empty_registry default_config) sample_history)
     (transition (run (empty_registry default_config) sample_history) 0 Errored
        ''memory usage exceeded'' SchedulingFailure)"

section \<open>Properties of listFailedOperations\<close>

lemma listFailedOperations_Inr:
  "callAPIWithETag ''/api/progress/?include_failed=true'' = Inr response \<Longrightarrow>
   listFailedOperations callAPIWithETag =
     Inr \<lparr>operations = filter is_failed_status (operations response),
          count = length (filter is_failed_status (operations response)),
          timestamp = timestamp response\<rparr>"
  by (simp add: listFailedOperations_def Let_def)

lemma sample_endpoint_path:
  "sample_endpoint ''/api/progress/?include_failed=true'' =
     Inr \<lparr>operations = [mk_op ''a'' ''error'', mk_op ''b'' ''completed'',
                          mk_op ''c'' ''processing'', mk_op ''d'' ''failed''],
           count = 4, timestamp = ''2025-01-01T00:00:00''\<rparr>"
  by (simp add: sample_endpoint_def)

lemma listFailedOperations_sample:
  "listFailedOperations sample_endpoint =
     Inr \<lparr>operations = [mk_op ''a'' ''error'', mk_op ''d'' ''failed''],
           count = 2, timestamp = ''2025-01-01T00:00:00''\<rparr>"
  by (simp add: listFailedOperations_def sample_endpoint_def Let_def is_failed_status_def mk_op_def)

text \<open>
  C1. Whatever the list endpoint answers, the operations returned by
  \<open>listFailedOperations\<close> are exactly the operations of the raw response whose status is
  \<open>error\<close> or \<open>failed\<close>, in the order of the raw response: every returned operation has
  one of these two statuses, every raw operation with one of them is returned as often
  as it occurs, and an operation with any other status (completed, cancelled, or a
  non-terminal one) is never returned.
\<close>

theorem listFailedOperations_exactly_failed:
  assumes "callAPIWithETag ''/api/progress/?include_failed=true'' = Inr response"
  shows "\<exists>res. listFailedOperations callAPIWithETag = Inr res
           \<and> set (operations res) =
               {op \<in> set (operations response). status op = ''error'' \<or> status op = ''failed''}
           \<and> (\<forall>op. count_list (operations res) op =
                  (if status op = ''error'' \<or> status op = ''failed''
                   then count_list (operations response) op else 0))
           \<and> subseq (operations res) (operations response)
           \<and> (\<forall>op \<in> set (operations res). status op \<noteq> ''completed'' \<and> status op \<noteq> ''cancelled''
                  \<and> status op \<notin> {''queued'', ''starting'', ''analyzing'', ''processing''})"
proof -
  let ?res = "\<lparr>operations = filter is_failed_status (operations response),
          count = length (filter is_failed_status (operations response)),
          timestamp = timestamp response\<rparr>"
  have r: "listFailedOperations callAPIWithETag = Inr ?res"
    using assms by (rule listFailedOperations_Inr)
  have s: "set (operations ?res) =
      {op \<in> set (operations response). status op = ''error'' \<or> status op = ''failed''}"
    by (auto simp: is_failed_status_def)
  have c: "\<forall>op. count_list (operations ?res) op =
      (if status op = ''error'' \<or> status op = ''failed''
       then count_list (operations response) op else 0)"
  proof
    fix op
    have "count_list (filter is_failed_status xs) op =
        (if is_failed_status op then count_list xs op else 0)" for xs
      by (induction xs) auto
    then show "count_list (operations ?res) op =
      (if status op = ''error'' \<or> status op = ''failed''
       then count_list (operations response) op else 0)"
      by (simp add: is_failed_status_def)
  qed
  have q: "subseq (operations ?res) (operations response)"
    by simp
  have n: "\<forall>op \<in> set (operations ?res). status op \<noteq> ''completed'' \<and> status op \<noteq> ''cancelled''
      \<and> status op \<notin> {''queued'', ''starting'', ''analyzing'', ''processing''}"
    by (auto simp: is_failed_status_def)
  from r s c q n show ?thesis by blast
qed

theorem listFailedOperations_exactly_failed_witness:
  "\<exists>res. listFailedOperations sample_endpoint = Inr res
     \<and> set (operations res) = {mk_op ''a'' ''error'', mk_op ''d'' ''failed''}
     \<and> mk_op ''b'' ''completed'' \<notin> set (operations res)
     \<and> mk_op ''c'' ''processing'' \<notin> set (operations res)"
proof -
  from listFailedOperations_exactly_failed [of sample_endpoint, OF sample_endpoint_path]
  obtain res where r: "listFailedOperations sample_endpoint = Inr res"
    by blast
  then have res: "res = \<lparr>operations = [mk_op ''a'' ''error'', mk_op ''d'' ''failed''],
           count = 2, timestamp = ''2025-01-01T00:00:00''\<rparr>"
    by (simp add: listFailedOperations_sample)
  have "set (operations res) = {mk_op ''a'' ''error'', mk_op ''d'' ''failed''}
     \<and> mk_op ''b'' ''completed'' \<notin> set (operations res)
     \<and> mk_op ''c'' ''processing'' \<notin> set (operations res)"
    unfolding res by (simp add: mk_op_def)
  with r show ?thesis by blast
qed

text \<open>
  C8. Whatever the list endpoint answers, the response built by
  \<open>listFailedOperations\<close> has \<open>count\<close> equal to the length of its own \<open>operations\<close>, that
  is to the number of \<open>error\<close>/\<open>failed\<close> operations of the raw response and not to the raw
  response's count, and its \<open>timestamp\<close> is the raw response's timestamp.
\<close>

theorem listFailedOperations_count_timestamp:
  assumes "callAPIWithETag ''/api/progress/?include_failed=true'' = Inr response"
  shows "\<exists>res. listFailedOperations callAPIWithETag = Inr res
           \<and> count res = length (operations res)
           \<and> count res = length (filter (\<lambda>op. status op = ''error'' \<or> status op = ''failed'')
                                    (operations response))
           \<and> timestamp res = timestamp response"
proof -
  have "is_failed_status = (\<lambda>op. status op = ''error'' \<or> status op = ''failed'')"
    by (rule ext) (simp add: is_failed_status_def)
  with listFailedOperations_Inr [of callAPIWithETag response, OF assms] show ?thesis by simp
qed

theorem listFailedOperations_count_timestamp_witness:
  "\<exists>res. listFailedOperations sample_endpoint = Inr res
     \<and> count res = 2 \<and> length (operations res) = 2
     \<and> timestamp res = ''2025-01-01T00:00:00''"
proof -
  from listFailedOperations_count_timestamp [of sample_endpoint, OF sample_endpoint_path]
  obtain res where r: "listFailedOperations sample_endpoint = Inr res"
    and c: "count res = length (operations res)"
    and t: "timestamp res = timestamp \<lparr>operations = [mk_op ''a'' ''error'', mk_op ''b'' ''completed'',
                          mk_op ''c'' ''processing'', mk_op ''d'' ''failed''],
           count = 4, timestamp = ''2025-01-01T00:00:00''\<rparr>"
    by blast
  from r have "res = \<lparr>operations = [mk_op ''a'' ''error'', mk_op ''d'' ''failed''],
           count = 2, timestamp = ''2025-01-01T00:00:00''\<rparr>"
    by (simp add: listFailedOperations_sample)
  then have "length (operations res) = 2"
    by simp
  with r c t show ?thesis by simp
qed

section \<open>Properties of the failed-operations section\<close>

text \<open>
  C10. \<open>toggleExpanded\<close> is an involution on the set of expanded ids: toggling an id
  twice gives the set back, toggling it once flips the membership of that id and of no
  other, and two toggles commute (in particular those of distinct ids).
\<close>

theorem toggleExpanded_involution:
  "toggleExpanded p (toggleExpanded p s) = s
   \<and> (\<forall>q. q \<in> toggleExpanded p s \<longleftrightarrow> (if q = p then p \<notin> s else q \<in> s))
   \<and> toggleExpanded p (toggleExpanded q s) = toggleExpanded q (toggleExpanded p s)"
  by (auto simp: toggleExpanded_def Let_def)

lemma js_slice_last: "0 < n \<Longrightarrow> js_slice (- int n) xs = drop (length xs - n) xs"
proof -
  assume "0 < n"
  then have "nat (max (int (length xs) + - int n) 0) = length xs - n"
    by (simp add: max_def) arith
  with \<open>0 < n\<close> show ?thesis
    by (simp add: js_slice_def Let_def)
qed

lemma map_filter_render_log:
  "map (\<lambda>l. LogObject (line_key l) (line_message l)) (List.map_filter (render_log fmt) xs)
     = filter (\<lambda>e. case e of LogString _ \<Rightarrow> False | LogObject _ _ \<Rightarrow> True) xs"
proof (induction xs)
  case Nil
  show ?case by simp
next
  case (Cons e xs)
  then show ?case by (cases e) simp_all
qed

lemma map_filter_render_log_time:
  "l \<in> set (List.map_filter (render_log fmt) xs) \<Longrightarrow> line_time l = toLocaleTimeString fmt (line_key l)"
proof (induction xs)
  case Nil
  then show ?case by simp
next
  case (Cons e xs)
  then show ?case by (cases e) auto
qed

text \<open>
  C9. In the expanded details of a failed operation the logs section is rendered exactly
  when \<open>op.logs\<close> is present and non-empty. The rendered lines are then, one for one and
  in the same order, the entries of the last ten elements of \<open>op.logs\<close> that are not
  plain strings: mapping each line back to its entry gives the non-string elements of
  the last ten, which is a subsequence of the log; there are at most ten lines, and the
  details (with this logs section) appear only for an expanded card.
\<close>

theorem render_logs_last_ten:
  "(render_logs fmt op \<noteq> None \<longleftrightarrow> (\<exists>ls. logs op = Some ls \<and> ls \<noteq> []))
   \<and> (\<forall>ls. logs op = Some ls \<and> ls \<noteq> [] \<longrightarrow>
        (\<exists>lines. render_logs fmt op = Some lines
           \<and> map (\<lambda>l. LogObject (line_key l) (line_message l)) lines
               = filter (\<lambda>e. case e of LogString _ \<Rightarrow> False | LogObject _ _ \<Rightarrow> True)
                   (drop (length ls - 10) ls)
           \<and> (\<forall>l \<in> set lines. line_time l = toLocaleTimeString fmt (line_key l))
           \<and> subseq (map (\<lambda>l. LogObject (line_key l) (line_message l)) lines) ls
           \<and> length lines \<le> 10))
   \<and> card_details (render_card fmt h s op)
       = (if progressId op \<in> expandedOps s
          then Some \<lparr>full_error = error op, crawl_logs = render_logs fmt op\<rparr> else None)"
proof (intro conjI allI impI)
  show "render_logs fmt op \<noteq> None \<longleftrightarrow> (\<exists>ls. logs op = Some ls \<and> ls \<noteq> [])"
    by (cases "logs op") (simp_all add: render_logs_def)
next
  fix ls
  assume a: "logs op = Some ls \<and> ls \<noteq> []"
  let ?lines = "List.map_filter (render_log fmt) (drop (length ls - 10) ls)"
  let ?entry_of = "\<lambda>l. LogObject (line_key l) (line_message l)"
  have s: "js_slice (- 10) ls = drop (length ls - 10) ls"
    using js_slice_last [of 10 ls] by simp
  have r: "render_logs fmt op = Some ?lines"
    using a s by (simp add: render_logs_def)
  have m: "map ?entry_of ?lines
      = filter (\<lambda>e. case e of LogString _ \<Rightarrow> False | LogObject _ _ \<Rightarrow> True)
          (drop (length ls - 10) ls)"
    by (rule map_filter_render_log)
  have t: "\<forall>l \<in> set ?lines. line_time l = toLocaleTimeString fmt (line_key l)"
    by (blast intro: map_filter_render_log_time)
  have "subseq (map ?entry_of ?lines) (drop (length ls - 10) ls)"
    unfolding m by simp
  moreover have "subseq (drop (length ls - 10) ls) ls"
    by (metis append_take_drop_id suffix_def suffix_imp_subseq)
  ultimately have q: "subseq (map ?entry_of ?lines) ls"
    by (rule subseq_order.trans)
  have "length (map ?entry_of ?lines) \<le> length (drop (length ls - 10) ls)"
    unfolding m by (rule length_filter_le)
  then have n: "length ?lines \<le> 10"
    by simp
  from r m t q n show "\<exists>lines. render_logs fmt op = Some lines
           \<and> map ?entry_of lines
               = filter (\<lambda>e. case e of LogString _ \<Rightarrow> False | LogObject _ _ \<Rightarrow> True)
                   (drop (length ls - 10) ls)
           \<and> (\<forall>l \<in> set lines. line_time l = toLocaleTimeString fmt (line_key l))
           \<and> subseq (map ?entry_of lines) ls
           \<and> length lines \<le> 10"
    by blast
next
  show "card_details (render_card fmt h s op)
       = (if progressId op \<in> expandedOps s
          then Some \<lparr>full_error = error op, crawl_logs = render_logs fmt op\<rparr> else None)"
    by (simp add: render_card_def render_details_def)
qed

theorem render_logs_last_ten_witness:
  "\<exists>lines. render_logs plain_format logged_op = Some lines
     \<and> map line_key lines = [''t02'', ''t04'', ''t05'', ''t07'', ''t08'', ''t09'', ''t10'', ''t11'']
     \<and> length lines \<le> 10"
proof -
  have a: "logs logged_op = Some sample_logs \<and> sample_logs \<noteq> []"
    by (simp add: logged_op_def sample_logs_def)
  with render_logs_last_ten [of plain_format logged_op]
  obtain lines where r: "render_logs plain_format logged_op = Some lines"
    and m: "map (\<lambda>l. LogObject (line_key l) (line_message l)) lines
               = filter (\<lambda>e. case e of LogString _ \<Rightarrow> False | LogObject _ _ \<Rightarrow> True)
                   (drop (length sample_logs - 10) sample_logs)"
    and n: "length lines \<le> 10"
    by blast
  have "map line_key lines
      = map (\<lambda>e. case e of LogString s \<Rightarrow> s | LogObject ts msg \<Rightarrow> ts)
          (map (\<lambda>l. LogObject (line_key l) (line_message l)) lines)"
    by (simp add: o_def)
  also have "\<dots> = [''t02'', ''t04'', ''t05'', ''t07'', ''t08'', ''t09'', ''t10'', ''t11'']"
    unfolding m by (simp add: sample_logs_def)
  finally have "map line_key lines
      = [''t02'', ''t04'', ''t05'', ''t07'', ''t08'', ''t09'', ''t10'', ''t11'']" .
  with r n show ?thesis by simp
qed


section \<open>Properties of the retry hook\<close>

text \<open>
  C2, as stated, fails: a record whose status is not failure-class but whose original
  request is present is resubmitted. Here a \<open>completed\<close> record is retried, the
  collaborator is called and answers with the new id 0, and the new operation exists.
\<close>

theorem retry_non_failure_status_counterexample:
  "status completed_op \<noteq> ''error'' \<and> status completed_op \<noteq> ''failed''
   \<and> fst (mutationFn submit completed_op (empty_registry default_config)) = Inr 0
   \<and> next_id (snd (mutationFn submit completed_op (empty_registry default_config))) = 1
   \<and> get (snd (mutationFn submit completed_op (empty_registry default_config))) 0
       = Inr \<lparr>op_status = Queued, op_progress_percent = 0, op_log = [],
               op_error_message = None, op_error_time = None,
               op_original_request = \<lparr>crawl_url = ''https://x'', crawl_max_depth = Some 2,
                                       crawl_tags = Some [''docs'']\<rparr>\<rparr>"
  by (simp add: completed_op_def mk_op_def sample_request_def mutationFn_def submit_def
        create_def empty_registry_def get_def)

text \<open>
  C2, amended. The retry fails with the error "Cannot retry: Original request data
  missing" when the record's original request is absent or its url is empty; in that
  case the job-submission collaborator is not called (the result is the same for every
  collaborator) and the server's state is unchanged, so no operation is created. With a
  non-empty url the hook submits the url, max_depth and tags of the stored request. The
  status of the record is never examined: the argument type \<open>FailedOperation\<close> admits
  only \<open>error\<close> and \<open>failed\<close>, and there is no separate not-retryable failure.
\<close>

theorem mutationFn_missing_request:
  "((original_request failedOp = None
       \<or> (\<exists>req. original_request failedOp = Some req \<and> orig_url req = []))
      \<longrightarrow> mutationFn crawlUrl failedOp srv = (Inl (Error missing_msg), srv))
   \<and> (\<forall>req. original_request failedOp = Some req \<and> orig_url req \<noteq> []
      \<longrightarrow> mutationFn crawlUrl failedOp srv =
            crawlUrl \<lparr>crawl_url = orig_url req, crawl_max_depth = orig_max_depth req,
                      crawl_tags = orig_tags req\<rparr> srv)
   \<and> mutationFn crawlUrl (failedOp\<lparr>status := st\<rparr>) srv = mutationFn crawlUrl failedOp srv"
  by (auto simp: mutationFn_def split: option.splits)

theorem mutationFn_missing_request_witness:
  "mutationFn submit (mk_op ''p0'' ''error'') (empty_registry default_config)
     = (Inl (Error ''Cannot retry: Original request data missing''), empty_registry default_config)
   \<and> mutationFn submit failing_op (empty_registry default_config)
     = submit \<lparr>crawl_url = ''https://x'', crawl_max_depth = Some 2, crawl_tags = Some [''docs'']\<rparr>
         (empty_registry default_config)"
proof -
  have a: "original_request (mk_op ''p0'' ''error'') = None"
    by (simp add: mk_op_def)
  have b: "original_request failing_op = Some sample_request \<and> orig_url sample_request \<noteq> []"
    by (simp add: failing_op_def sample_request_def)
  from mutationFn_missing_request [of "mk_op ''p0'' ''error''" submit "empty_registry default_config"] a
  have 1: "mutationFn submit (mk_op ''p0'' ''error'') (empty_registry default_config)
     = (Inl (Error missing_msg), empty_registry default_config)"
    by simp
  from mutationFn_missing_request [of failing_op submit "empty_registry default_config"] b
  have 2: "mutationFn submit failing_op (empty_registry default_config)
     = submit \<lparr>crawl_url = orig_url sample_request, crawl_max_depth = orig_max_depth sample_request,
                      crawl_tags = orig_tags sample_request\<rparr> (empty_registry default_config)"
    by blast
  from 1 2 show ?thesis by (simp add: missing_msg_def sample_request_def)
qed

lemma terminal_no_edge: "terminal s \<Longrightarrow> \<not> allowed_edge s t"
  by (cases s) simp_all

lemma fresh_ids_empty: "fresh_ids (empty_registry cfg)"
  by (simp add: fresh_ids_def empty_registry_def)

lemma fresh_ids_apply_event: "fresh_ids reg \<Longrightarrow> fresh_ids (apply_event reg ev)"
proof (cases ev)
  case (ECreate req)
  assume "fresh_ids reg"
  then show ?thesis using ECreate
    by (auto simp: fresh_ids_def create_def less_Suc_eq)
next
  case (EUpdate i pct msg)
  assume "fresh_ids reg"
  then show ?thesis using EUpdate
    by (auto simp: fresh_ids_def update_def split: option.splits)
next
  case (ETransition i st msg outcome)
  assume "fresh_ids reg"
  then show ?thesis using ETransition
    by (auto simp: fresh_ids_def transition_def remove_def Let_def
          split: option.splits sched_outcome.splits)
next
  case (ERemove i)
  assume "fresh_ids reg"
  then show ?thesis using ERemove
    by (auto simp: fresh_ids_def remove_def)
next
  case ETick
  assume "fresh_ids reg"
  then show ?thesis using ETick
    by (auto simp: fresh_ids_def tick_def Let_def)
qed

lemma fresh_ids_run: "fresh_ids reg \<Longrightarrow> fresh_ids (run reg evs)"
  by (induction evs arbitrary: reg) (simp_all add: fresh_ids_apply_event)

lemma submit_frame:
  assumes "fresh_ids reg"
  shows "(\<forall>i op. records reg i = Some op \<longrightarrow>
            records (snd (submit req reg)) i = Some op)
       \<and> pending (snd (submit req reg)) = pending reg
       \<and> now (snd (submit req reg)) = now reg"
  using assms by (auto simp: submit_def create_def fresh_ids_def)

lemma sample_history_run:
  "run (empty_registry default_config) sample_history
     = \<lparr>records = [0 \<mapsto> \<lparr>op_status = Starting, op_progress_percent = 0, op_log = [],
               op_error_message = None, op_error_time = None,
               op_original_request = \<lparr>crawl_url = ''https://x'', crawl_max_depth = Some 2,
                                       crawl_tags = Some [''docs'']\<rparr>\<rparr>],
         next_id = 1, pending = Map.empty, now = 1, config = default_config\<rparr>"
  by (simp add: sample_history_def empty_registry_def create_def transition_def tick_def
        due_def Let_def fun_eq_iff)

lemma sample_transition:
  "transition (run (empty_registry default_config) sample_history) 0 Errored
      ''memory usage exceeded'' Scheduled = Inr sample_registry"
  by (simp add: sample_registry_def sample_history_run transition_def Let_def)

lemma sample_registry_reachable:
  "sample_registry = run (empty_registry default_config)
      (sample_history @ [ETransition 0 Errored ''memory usage exceeded'' Scheduled])"
proof -
  have "run r (xs @ ys) = run (run r xs) ys" for r xs ys
    by (induction xs arbitrary: r) simp_all
  then show ?thesis
    by (simp add: sample_registry_def)
qed

lemma sample_registry_record:
  "records sample_registry 0
     = Some \<lparr>op_status = Errored, op_progress_percent = 0, op_log = [],
               op_error_message = Some ''memory usage exceeded'', op_error_time = Some 1,
               op_original_request = \<lparr>crawl_url = ''https://x'', crawl_max_depth = Some 2,
                                       crawl_tags = Some [''docs'']\<rparr>\<rparr>
   \<and> pending sample_registry 0 = Some 301 \<and> next_id sample_registry = 1"
proof -
  have "retention_window default_config Errored = 300"
    by (simp add: retention_window_def default_config_def)
  then show ?thesis
    by (simp add: sample_registry_def sample_history_run transition_def Let_def)
qed

lemma retry_resubmits:
  assumes "srv = run (empty_registry cfg) history"
    and "records srv i = Some op" and "failure_class (op_status op)"
    and "original_request failedOp = Some req"
    and "orig_url req = crawl_url (op_original_request op)"
    and "orig_max_depth req = crawl_max_depth (op_original_request op)"
    and "orig_tags req = crawl_tags (op_original_request op)"
    and "crawl_url (op_original_request op) \<noteq> []"
  shows "mutationFn crawlUrl failedOp s = crawlUrl (op_original_request op) s
       \<and> (\<exists>j srv' new.
             mutationFn submit failedOp srv = (Inr j, srv')
             \<and> j \<noteq> i
             \<and> get srv j = Inl UnknownOperation
             \<and> get srv' j = Inr new
             \<and> op_original_request new = op_original_request op
             \<and> op_status new = Queued
             \<and> get srv' i = Inr op
             \<and> pending srv' i = pending srv i)"
proof -
  let ?R = "op_original_request op"
  have q: "\<lparr>crawl_url = orig_url req, crawl_max_depth = orig_max_depth req,
            crawl_tags = orig_tags req\<rparr> = ?R"
    using assms(5,6,7) by simp
  have m: "mutationFn c failedOp t = c ?R t" for c :: "crawl_request \<Rightarrow> 'x \<Rightarrow> (js_error + 'y) \<times> 'x" and t
    using assms(4,5,8) q by (simp add: mutationFn_def)
  have f: "fresh_ids srv"
    using assms(1) by (simp add: fresh_ids_run fresh_ids_empty)
  with assms(2) have l: "i < next_id srv"
    by (simp add: fresh_ids_def)
  from f have a: "records srv (next_id srv) = None"
    by (auto simp: fresh_ids_def)
  let ?j = "next_id srv"
  let ?srv' = "snd (submit ?R srv)"
  let ?new = "\<lparr>op_status = Queued, op_progress_percent = 0, op_log = [],
               op_error_message = None, op_error_time = None, op_original_request = ?R\<rparr>"
  have 1: "mutationFn submit failedOp srv = (Inr ?j, ?srv')"
    using m [of submit srv] by (simp add: submit_def create_def)
  have 2: "?j \<noteq> i" using l by simp
  have 3: "get srv ?j = Inl UnknownOperation" using a by (simp add: get_def)
  have 4: "get ?srv' ?j = Inr ?new" by (simp add: submit_def create_def get_def)
  have 5: "get ?srv' i = Inr op" using assms(2) l by (simp add: submit_def create_def get_def)
  have 6: "pending ?srv' i = pending srv i" by (simp add: submit_def create_def)
  have "\<exists>j srv' new.
             mutationFn submit failedOp srv = (Inr j, srv')
             \<and> j \<noteq> i
             \<and> get srv j = Inl UnknownOperation
             \<and> get srv' j = Inr new
             \<and> op_original_request new = op_original_request op
             \<and> op_status new = Queued
             \<and> get srv' i = Inr op
             \<and> pending srv' i = pending srv i"
    using 1 2 3 4 5 6
    by (intro exI [of _ ?j] exI [of _ ?srv'] exI [of _ ?new]) simp
  with m [of crawlUrl s] show ?thesis by simp
qed

text \<open>
  C5. Frame of a successful retry. The server's state after the whole mutation is the
  state returned by the one call of the job-submission collaborator: \<open>onSuccess\<close> adds
  no server call, in particular no removal. On the observer's side only the cached
  detail query of the old operation is dropped; every other cached query stays. With
  the registry's \<open>submit\<close> as collaborator, every record stored before the retry is
  stored unchanged after it, and the pending evictions and the clock are the same.
\<close>

theorem retry_success_frame:
  assumes "srv = run (empty_registry cfg) history"
    and "fst (mutationFn crawlUrl failedOp srv) = Inr data"
  shows "snd (retry_mutate progressKeys crawlUrl failedOp (c, srv))
           = snd (mutationFn crawlUrl failedOp srv)
       \<and> (\<exists>req. original_request failedOp = Some req
             \<and> snd (retry_mutate progressKeys crawlUrl failedOp (c, srv))
                 = snd (crawlUrl \<lparr>crawl_url = orig_url req, crawl_max_depth = orig_max_depth req,
                                   crawl_tags = orig_tags req\<rparr> srv))
       \<and> queries (fst (retry_mutate progressKeys crawlUrl failedOp (c, srv)))
           = (queries c)(detail progressKeys (progressId failedOp) := None)
       \<and> (crawlUrl = submit \<longrightarrow>
            (\<forall>i op. records srv i = Some op \<longrightarrow>
               records (snd (retry_mutate progressKeys crawlUrl failedOp (c, srv))) i = Some op)
            \<and> pending (snd (retry_mutate progressKeys crawlUrl failedOp (c, srv))) = pending srv
            \<and> now (snd (retry_mutate progressKeys crawlUrl failedOp (c, srv))) = now srv)"
proof -
  let ?w = "retry_mutate progressKeys crawlUrl failedOp (c, srv)"
  obtain srv' where m: "mutationFn crawlUrl failedOp srv = (Inr data, srv')"
    using assms(2) by (cases "mutationFn crawlUrl failedOp srv") simp
  then have w: "?w = (onSuccess progressKeys data failedOp c, srv')"
    by (simp add: retry_mutate_def)
  from m obtain req where r: "original_request failedOp = Some req" and u: "orig_url req \<noteq> []"
    by (auto simp: mutationFn_def split: option.splits if_splits)
  then have k: "mutationFn crawlUrl failedOp srv =
      crawlUrl \<lparr>crawl_url = orig_url req, crawl_max_depth = orig_max_depth req,
                crawl_tags = orig_tags req\<rparr> srv"
    by (simp add: mutationFn_def)
  have 1: "snd ?w = snd (mutationFn crawlUrl failedOp srv)"
    using w m by simp
  have 2: "\<exists>req. original_request failedOp = Some req
             \<and> snd ?w = snd (crawlUrl \<lparr>crawl_url = orig_url req, crawl_max_depth = orig_max_depth req,
                                   crawl_tags = orig_tags req\<rparr> srv)"
    using 1 r k by simp
  have 3: "queries (fst ?w) = (queries c)(detail progressKeys (progressId failedOp) := None)"
    using w by (simp add: onSuccess_def Let_def invalidateQueries_def removeQueries_def showToast_def)
  have f: "fresh_ids srv"
    using assms(1) by (simp add: fresh_ids_run fresh_ids_empty)
  have 4: "crawlUrl = submit \<longrightarrow>
            (\<forall>i op. records srv i = Some op \<longrightarrow> records (snd ?w) i = Some op)
            \<and> pending (snd ?w) = pending srv \<and> now (snd ?w) = now srv"
  proof
    assume "crawlUrl = submit"
    with 1 k have "snd ?w = snd (submit \<lparr>crawl_url = orig_url req, crawl_max_depth = orig_max_depth req,
                crawl_tags = orig_tags req\<rparr> srv)"
      by simp
    with submit_frame [OF f] show "(\<forall>i op. records srv i = Some op \<longrightarrow> records (snd ?w) i = Some op)
            \<and> pending (snd ?w) = pending srv \<and> now (snd ?w) = now srv"
      by simp
  qed
  from 1 2 3 4 show ?thesis by blast
qed

theorem retry_success_frame_witness:
  "fst (mutationFn submit failing_op sample_registry) = Inr 1
   \<and> get (snd (retry_mutate sample_keys submit failing_op (sample_client, sample_registry))) 0
       = get sample_registry 0
   \<and> pending (snd (retry_mutate sample_keys submit failing_op (sample_client, sample_registry))) 0
       = Some 301
   \<and> queries (fst (retry_mutate sample_keys submit failing_op (sample_client, sample_registry)))
       = [[''progress'', ''failed''] \<mapsto> 2]"
proof -
  let ?w = "retry_mutate sample_keys submit failing_op (sample_client, sample_registry)"
  have m: "fst (mutationFn submit failing_op sample_registry) = Inr 1"
    by (simp add: mutationFn_def failing_op_def mk_op_def sample_request_def submit_def
          create_def sample_registry_record)
  from retry_success_frame [OF sample_registry_reachable m, of sample_keys sample_client]
  have f: "\<forall>i op. records sample_registry i = Some op \<longrightarrow> records (snd ?w) i = Some op"
    and p: "pending (snd ?w) = pending sample_registry"
    and q: "queries (fst ?w)
        = (queries sample_client)(detail sample_keys (progressId failing_op) := None)"
    by blast+
  from f sample_registry_record have "get (snd ?w) 0 = get sample_registry 0"
    by (simp add: get_def)
  moreover from p sample_registry_record have "pending (snd ?w) 0 = Some 301"
    by simp
  moreover from q have "queries (fst ?w) = [[''progress'', ''failed''] \<mapsto> 2]"
    by (simp add: sample_client_def sample_keys_def failing_op_def mk_op_def fun_eq_iff)
  ultimately show ?thesis using m by simp
qed

section \<open>Properties of the registry\<close>

lemma now_apply_event:
  "now (apply_event reg ev) = (if ev = ETick then Suc (now reg) else now reg)"
  by (cases ev)
    (auto simp: create_def update_def transition_def remove_def tick_def Let_def
          split: option.splits sched_outcome.splits)

lemma apply_event_keeps:
  assumes "records reg i = Some op" and "terminal (op_status op)"
    and "pending reg i = Some d" and "i < next_id reg"
    and "ev \<noteq> ERemove i" and "ev = ETick \<longrightarrow> Suc (now reg) < d"
  shows "records (apply_event reg ev) i = Some op
       \<and> pending (apply_event reg ev) i = Some d
       \<and> i < next_id (apply_event reg ev)"
proof (cases ev)
  case (ECreate req)
  with assms show ?thesis by (auto simp: create_def)
next
  case (EUpdate j pct msg)
  with assms show ?thesis by (auto simp: update_def split: option.splits)
next
  case (ETransition j st msg outcome)
  with assms show ?thesis
    by (auto simp: transition_def remove_def Let_def terminal_no_edge
          split: option.splits sched_outcome.splits)
next
  case (ERemove j)
  with assms show ?thesis by (auto simp: remove_def)
next
  case ETick
  with assms show ?thesis by (auto simp: tick_def Let_def due_def)
qed

lemma apply_event_absent:
  assumes "records reg i = None" and "i < next_id reg"
  shows "records (apply_event reg ev) i = None \<and> i < next_id (apply_event reg ev)"
proof (cases ev)
  case (ECreate req)
  with assms show ?thesis by (auto simp: create_def)
next
  case (EUpdate j pct msg)
  with assms show ?thesis by (auto simp: update_def split: option.splits)
next
  case (ETransition j st msg outcome)
  with assms show ?thesis
    by (auto simp: transition_def remove_def Let_def split: option.splits sched_outcome.splits)
next
  case (ERemove j)
  with assms show ?thesis by (auto simp: remove_def)
next
  case ETick
  with assms show ?thesis by (auto simp: tick_def Let_def)
qed

lemma run_absent:
  "records reg i = None \<Longrightarrow> i < next_id reg \<Longrightarrow> records (run reg evs) i = None"
proof (induction evs arbitrary: reg)
  case Nil
  then show ?case by simp
next
  case (Cons ev evs)
  from apply_event_absent [OF Cons.prems, of ev] Cons.IH show ?case by simp
qed

lemma ticks_Cons: "ticks (ev # evs) = (if ev = ETick then Suc (ticks evs) else ticks evs)"
  by (cases ev) simp_all

lemma run_keeps:
  assumes "records reg i = Some op" and "terminal (op_status op)"
    and "pending reg i = Some d" and "i < next_id reg"
    and "ERemove i \<notin> set evs" and "now reg + ticks evs < d"
  shows "records (run reg evs) i = Some op"
  using assms
proof (induction evs arbitrary: reg)
  case Nil
  then show ?case by simp
next
  case (Cons ev evs)
  have k: "records (apply_event reg ev) i = Some op
       \<and> pending (apply_event reg ev) i = Some d
       \<and> i < next_id (apply_event reg ev)"
    using Cons.prems by (intro apply_event_keeps) (auto simp: ticks_Cons)
  have n: "now (apply_event reg ev) + ticks evs < d"
    using Cons.prems(6) by (simp add: now_apply_event ticks_Cons split: if_splits)
  from Cons.IH [of "apply_event reg ev"] k n Cons.prems(2,5) show ?case by simp
qed

lemma run_evicts:
  assumes "records reg i = Some op" and "terminal (op_status op)"
    and "pending reg i = Some d" and "i < next_id reg"
    and "now reg < d" and "d \<le> now reg + ticks evs"
  shows "records (run reg evs) i = None"
  using assms
proof (induction evs arbitrary: reg)
  case Nil
  then show ?case by simp
next
  case (Cons ev evs)
  show ?case
  proof (cases "ev = ERemove i \<or> (ev = ETick \<and> d \<le> Suc (now reg))")
    case True
    then have "records (apply_event reg ev) i = None \<and> i < next_id (apply_event reg ev)"
      using Cons.prems by (auto simp: remove_def tick_def Let_def due_def)
    then show ?thesis by (simp add: run_absent)
  next
    case False
    then have k: "records (apply_event reg ev) i = Some op
       \<and> pending (apply_event reg ev) i = Some d
       \<and> i < next_id (apply_event reg ev)"
      using Cons.prems by (intro apply_event_keeps) auto
    have n: "now (apply_event reg ev) < d \<and> d \<le> now (apply_event reg ev) + ticks evs"
      using Cons.prems(5,6) False by (auto simp: now_apply_event ticks_Cons split: if_splits)
    from Cons.IH [of "apply_event reg ev"] k n Cons.prems(2) show ?thesis by simp
  qed
qed

lemma transition_terminal:
  assumes "transition reg i st msg Scheduled = Inr reg'" and "terminal st"
  shows "\<exists>op. records reg' i = Some op \<and> op_status op = st
        \<and> pending reg' i = Some (now reg + retention_window (config reg) st)
        \<and> now reg' = now reg \<and> next_id reg' = next_id reg \<and> records reg i \<noteq> None"
  using assms
  by (auto simp: transition_def Let_def split: option.splits if_splits)

lemma ticks_replicate: "ticks (replicate n ETick) = n"
  by (induction n) simp_all

section \<open>Retry round trip\<close>

lemma run_append: "run reg (xs @ ys) = run (run reg xs) ys"
  by (induction xs arbitrary: reg) simp_all

lemma apply_event_request:
  assumes "records reg i = Some op" and "records (apply_event reg ev) i = Some op'"
    and "i < next_id reg"
  shows "op_original_request op' = op_original_request op \<and> i < next_id (apply_event reg ev)"
proof (cases ev)
  case (ECreate req)
  with assms show ?thesis by (auto simp: create_def)
next
  case (EUpdate j pct msg)
  with assms show ?thesis by (auto simp: update_def split: option.splits if_splits)
next
  case (ETransition j st msg outcome)
  with assms show ?thesis
    by (auto simp: transition_def remove_def Let_def
          split: option.splits if_splits sched_outcome.splits)
next
  case (ERemove j)
  with assms show ?thesis by (auto simp: remove_def split: if_splits)
next
  case ETick
  with assms show ?thesis by (auto simp: tick_def Let_def split: if_splits)
qed

lemma run_request:
  assumes "records reg i = Some op" and "i < next_id reg"
    and "records (run reg evs) i = Some op'"
  shows "op_original_request op' = op_original_request op"
  using assms
proof (induction evs arbitrary: reg op)
  case Nil
  then show ?case by simp
next
  case (Cons ev evs)
  show ?case
  proof (cases "records (apply_event reg ev) i")
    case None
    moreover have "i < next_id (apply_event reg ev)"
      using Cons.prems(2) by (cases ev)
        (auto simp: create_def update_def transition_def remove_def tick_def Let_def
              split: option.splits sched_outcome.splits)
    ultimately have "records (run (apply_event reg ev) evs) i = None"
      by (rule run_absent)
    with Cons.prems(3) show ?thesis by simp
  next
    case (Some mid)
    from apply_event_request [OF Cons.prems(1) Some Cons.prems(2)]
    have e: "op_original_request mid = op_original_request op"
      and l: "i < next_id (apply_event reg ev)"
      by simp_all
    from Cons.IH [OF Some l] Cons.prems(3) e show ?thesis by simp
  qed
qed

lemma created_request:
  assumes "create reg0 R = (i, reg1)" and "records (run reg1 evs) i = Some op"
  shows "op_original_request op = R"
proof -
  from assms(1) have r: "records reg1 i = Some \<lparr>op_status = Queued, op_progress_percent = 0,
      op_log = [], op_error_message = None, op_error_time = None, op_original_request = R\<rparr>"
    and l: "i < next_id reg1"
    by (auto simp: create_def)
  from run_request [OF r l assms(2)] show ?thesis by simp
qed

text \<open>
  C3. Retry round trip. In a registry reached from the empty one, let an operation be
  created with the request \<open>R\<close> under the id \<open>i\<close>; after any further events let it be
  stored in a failure-class state, and let the failed operation handed to the hook
  carry the request it was created with: url, max_depth and tags of \<open>R\<close>, the url not
  empty (an empty url is the missing-request case of C2). Then the stored original
  request is still \<open>R\<close>, and the hook calls the job-submission collaborator with exactly
  \<open>R\<close>, whatever the collaborator is. With the registry's \<open>submit\<close> the retry answers
  with an id that differs from \<open>i\<close> and was not in use before, the new operation is
  queued with original request \<open>R\<close>, and the original record and its pending eviction
  are what they were.
\<close>

theorem retry_round_trip:
  assumes "reg0 = run (empty_registry cfg) history"
    and "create reg0 R = (i, reg1)"
    and "srv = run reg1 evs"
    and "records srv i = Some op" and "failure_class (op_status op)"
    and "original_request failedOp = Some req"
    and "orig_url req = crawl_url R"
    and "orig_max_depth req = crawl_max_depth R"
    and "orig_tags req = crawl_tags R"
    and "crawl_url R \<noteq> []"
  shows "op_original_request op = R
       \<and> mutationFn crawlUrl failedOp s = crawlUrl R s
       \<and> (\<exists>j srv' new.
             mutationFn submit failedOp srv = (Inr j, srv')
             \<and> j \<noteq> i
             \<and> get srv j = Inl UnknownOperation
             \<and> get srv' j = Inr new
             \<and> op_original_request new = R
             \<and> op_status new = Queued
             \<and> get srv' i = Inr op
             \<and> pending srv' i = pending srv i)"
proof -
  from assms(2) have "reg1 = apply_event reg0 (ECreate R)"
    by (simp add: create_def) (metis snd_conv)
  with assms(1,3) have h: "srv = run (empty_registry cfg) (history @ ECreate R # evs)"
    by (simp add: run_append)
  from assms(3,4) have "records (run reg1 evs) i = Some op" by simp
  with assms(2) have e: "op_original_request op = R"
    by (rule created_request)
  from retry_resubmits [OF h assms(4,5,6)] assms(7,8,9,10) e
  show ?thesis by simp
qed


theorem retry_round_trip_witness:
  "\<exists>j srv' new.
     mutationFn submit failing_op sample_registry = (Inr j, srv')
     \<and> j \<noteq> 0
     \<and> get srv' j = Inr new
     \<and> op_original_request new
         = \<lparr>crawl_url = ''https://x'', crawl_max_depth = Some 2, crawl_tags = Some [''docs'']\<rparr>
     \<and> get srv' 0 = get sample_registry 0"
proof -
  let ?R = "\<lparr>crawl_url = ''https://x'', crawl_max_depth = Some 2, crawl_tags = Some [''docs'']\<rparr>"
  let ?op = "\<lparr>op_status = Errored, op_progress_percent = 0, op_log = [],
               op_error_message = Some ''memory usage exceeded'', op_error_time = Some 1,
               op_original_request = ?R\<rparr>"
  let ?reg1 = "snd (create (empty_registry default_config) ?R)"
  let ?evs = "[ETransition 0 Starting [] Scheduled, ETick,
               ETransition 0 Errored ''memory usage exceeded'' Scheduled]"
  have h: "empty_registry default_config = run (empty_registry default_config) []"
    by simp
  have k: "create (empty_registry default_config) ?R = (0, ?reg1)"
    by (simp add: create_def empty_registry_def)
  have v: "sample_registry = run ?reg1 ?evs"
    using sample_registry_reachable by (simp add: sample_history_def)
  have r: "records sample_registry 0 = Some ?op"
    using sample_registry_record by simp
  have c: "failure_class (op_status ?op)" by simp
  have o: "original_request failing_op = Some sample_request"
    by (simp add: failing_op_def)
  have u: "orig_url sample_request = crawl_url ?R"
    and d: "orig_max_depth sample_request = crawl_max_depth ?R"
    and t: "orig_tags sample_request = crawl_tags ?R"
    and n: "crawl_url ?R \<noteq> []"
    by (simp_all add: sample_request_def)
  have g: "get sample_registry 0 = Inr ?op"
    using r by (simp add: get_def)
  have "\<exists>j srv' new.
             mutationFn submit failing_op sample_registry = (Inr j, srv')
             \<and> j \<noteq> 0
             \<and> get sample_registry j = Inl UnknownOperation
             \<and> get srv' j = Inr new
             \<and> op_original_request new = ?R
             \<and> op_status new = Queued
             \<and> get srv' 0 = Inr ?op
             \<and> pending srv' 0 = pending sample_registry 0"
    using retry_round_trip [OF h k v r c o u d t n, THEN conjunct2, THEN conjunct2] .
  then show ?thesis
  proof (elim exE conjE)
    fix j srv' new
    assume "mutationFn submit failing_op sample_registry = (Inr j, srv')"
      and "j \<noteq> 0" and "get srv' j = Inr new"
      and "op_original_request new = ?R"
      and "get srv' 0 = Inr ?op"
    with g show ?thesis
      by (intro exI [of _ j] exI [of _ srv'] exI [of _ new]) simp
  qed
qed

section \<open>Retention and removal\<close>

lemma transition_unscheduled:
  assumes "transition reg i st msg Scheduled = Inr reg'" and "terminal st"
  shows "\<exists>reg''. transition reg i st msg SchedulingFailure = Inr reg''
           \<and> get reg'' i = Inl UnknownOperation"
  using assms
  by (auto simp: transition_def remove_def get_def Let_def split: option.splits if_splits)

lemma retention_window_order:
  assumes "benign_retention cfg \<le> failure_retention cfg"
    and "failure_class st" and "\<not> failure_class st'"
  shows "retention_window cfg st' \<le> retention_window cfg st"
  using assms by (simp add: retention_window_def)

text \<open>
  C6, as stated, fails for an operation whose eviction could not be scheduled: the
  registry then evicts at once. Here an operation enters \<open>error\<close> under the default
  configuration, the scheduling fails, and \<open>get\<close> does not find the record although no
  time has passed and nobody removed it. Nor is the order of the two windows more than a
  default: a registry accepts a configuration with a failure window of 10 and a benign
  one of 20.
\<close>

theorem retention_scheduling_failure_counterexample:
  "failure_class Errored
   \<and> get (run (empty_registry default_config) sample_history) 0 \<noteq> Inl UnknownOperation
   \<and> transition (run (empty_registry default_config) sample_history) 0 Errored
        ''memory usage exceeded'' SchedulingFailure = Inr unscheduled_registry
   \<and> get (run unscheduled_registry []) 0 = Inl UnknownOperation
   \<and> ticks [] < retention_window (config unscheduled_registry) Errored
   \<and> retention_window (config (empty_registry inverted_config)) Errored
       < retention_window (config (empty_registry inverted_config)) Completed"
proof -
  have w: "retention_window default_config Errored = 300"
    by (simp add: retention_window_def default_config_def)
  have i: "retention_window (config (empty_registry inverted_config)) Errored
       < retention_window (config (empty_registry inverted_config)) Completed"
    by (simp add: retention_window_def inverted_config_def empty_registry_def)
  have t: "transition (run (empty_registry default_config) sample_history) 0 Errored
        ''memory usage exceeded'' SchedulingFailure = Inr unscheduled_registry"
    by (simp add: unscheduled_registry_def sample_history_run transition_def remove_def Let_def)
  have g: "get (run unscheduled_registry []) 0 = Inl UnknownOperation
      \<and> config unscheduled_registry = default_config"
    by (simp add: unscheduled_registry_def sample_history_run transition_def remove_def
          Let_def get_def)
  have b: "get (run (empty_registry default_config) sample_history) 0 \<noteq> Inl UnknownOperation"
    by (simp add: sample_history_run get_def)
  from w i t g b show ?thesis by simp
qed

text \<open>
  C6, amended. In a registry reached from the empty one, let an operation enter a
  terminal state \<open>st\<close> and let its eviction be scheduled. Whatever happens afterwards,
  short of an explicit removal of that operation, it is still returned by \<open>get\<close> with
  status \<open>st\<close> as long as fewer time-units have passed than the window of its class, and
  it is gone once the (non-zero) window has passed. With the default configuration the
  window is 300 for the failure class and 30 for the benign-terminal class, and
  30 \<open>\<le>\<close> 300; under any configuration that keeps this order a failure-class record is
  retained at least as long as a benign-terminal one. When the scheduling fails instead,
  the same transition succeeds and the record is evicted immediately.
\<close>

theorem retention_window_respected:
  assumes "reg = run (empty_registry cfg) history"
    and "transition reg i st msg Scheduled = Inr reg'" and "terminal st"
    and "ERemove i \<notin> set evs"
  shows "(ticks evs < retention_window cfg st \<longrightarrow>
            (\<exists>op. get (run reg' evs) i = Inr op \<and> op_status op = st))
       \<and> (0 < retention_window cfg st \<and> retention_window cfg st \<le> ticks evs \<longrightarrow>
            get (run reg' evs) i = Inl UnknownOperation)
       \<and> (cfg = default_config \<longrightarrow>
            retention_window cfg st = (if failure_class st then 300 else 30))
       \<and> benign_retention default_config \<le> failure_retention default_config
       \<and> (benign_retention cfg \<le> failure_retention cfg \<and> failure_class st \<longrightarrow>
            (\<forall>st'. \<not> failure_class st' \<longrightarrow>
               retention_window cfg st' \<le> retention_window cfg st))
       \<and> (\<exists>reg''. transition reg i st msg SchedulingFailure = Inr reg''
             \<and> get reg'' i = Inl UnknownOperation)"
proof -
  have c: "config (run r es) = config r" for r es
  proof (induction es arbitrary: r)
    case Nil
    show ?case by simp
  next
    case (Cons e es)
    have "config (apply_event r e) = config r"
      by (cases e)
        (auto simp: create_def update_def transition_def remove_def tick_def Let_def
              split: option.splits sched_outcome.splits)
    with Cons show ?case by simp
  qed
  have cfg: "config reg = cfg"
    using assms(1) c [of "empty_registry cfg" history] by (simp add: empty_registry_def)
  have f: "fresh_ids reg"
    using assms(1) by (simp add: fresh_ids_run fresh_ids_empty)
  from transition_terminal [OF assms(2,3)] cfg
  obtain op where r: "records reg' i = Some op" and s: "op_status op = st"
    and p: "pending reg' i = Some (now reg + retention_window cfg st)"
    and n: "now reg' = now reg" and x: "next_id reg' = next_id reg"
    and e: "records reg i \<noteq> None"
    by auto
  from f e have "i < next_id reg" by (simp add: fresh_ids_def)
  with x have l: "i < next_id reg'" by simp
  from s assms(3) have t: "terminal (op_status op)" by simp
  have a: "ticks evs < retention_window cfg st \<longrightarrow>
      (\<exists>op. get (run reg' evs) i = Inr op \<and> op_status op = st)"
  proof
    assume "ticks evs < retention_window cfg st"
    then have "now reg' + ticks evs < now reg + retention_window cfg st"
      using n by simp
    from run_keeps [OF r t p l assms(4) this] s show
      "\<exists>op. get (run reg' evs) i = Inr op \<and> op_status op = st"
      by (simp add: get_def)
  qed
  have b: "0 < retention_window cfg st \<and> retention_window cfg st \<le> ticks evs \<longrightarrow>
      get (run reg' evs) i = Inl UnknownOperation"
  proof
    assume h: "0 < retention_window cfg st \<and> retention_window cfg st \<le> ticks evs"
    then have "now reg' < now reg + retention_window cfg st"
      and "now reg + retention_window cfg st \<le> now reg' + ticks evs"
      using n by simp_all
    from run_evicts [OF r t p l this] show "get (run reg' evs) i = Inl UnknownOperation"
      by (simp add: get_def)
  qed
  have d: "cfg = default_config \<longrightarrow>
      retention_window cfg st = (if failure_class st then 300 else 30)"
    by (simp add: retention_window_def default_config_def)
  have g: "benign_retention default_config \<le> failure_retention default_config"
    by (simp add: default_config_def)
  have o: "benign_retention cfg \<le> failure_retention cfg \<and> failure_class st \<longrightarrow>
      (\<forall>st'. \<not> failure_class st' \<longrightarrow> retention_window cfg st' \<le> retention_window cfg st)"
    by (simp add: retention_window_order)
  have u: "\<exists>reg''. transition reg i st msg SchedulingFailure = Inr reg''
      \<and> get reg'' i = Inl UnknownOperation"
    using assms(2,3) by (rule transition_unscheduled)
  from a b d g o u show ?thesis by (intro conjI)
qed

theorem retention_window_respected_witness:
  "(\<exists>op. get (run sample_registry (replicate 299 ETick)) 0 = Inr op \<and> op_status op = Errored)
   \<and> get (run sample_registry (replicate 300 ETick)) 0 = Inl UnknownOperation
   \<and> retention_window default_config Errored = 300
   \<and> retention_window default_config Completed = 30"
proof -
  have h: "run (empty_registry default_config) sample_history
      = run (empty_registry default_config) sample_history" ..
  have w: "retention_window default_config Errored = 300"
    by (simp add: retention_window_def default_config_def)
  have v: "retention_window default_config Completed = 30"
    by (simp add: retention_window_def default_config_def)
  have t: "terminal Errored" by simp
  have a: "ERemove 0 \<notin> set (replicate 299 ETick)" by simp
  have b: "ERemove 0 \<notin> set (replicate 300 ETick)" by simp
  from retention_window_respected [OF h sample_transition t a] w
  have 1: "\<exists>op. get (run sample_registry (replicate 299 ETick)) 0 = Inr op \<and> op_status op = Errored"
    by (simp add: ticks_replicate)
  from retention_window_respected [OF h sample_transition t b] w
  have 2: "get (run sample_registry (replicate 300 ETick)) 0 = Inl UnknownOperation"
    by (simp add: ticks_replicate)
  from 1 2 w v show ?thesis by simp
qed

text \<open>
  C7. \<open>remove\<close> is idempotent: it succeeds for every id, a second call right after the
  first succeeds and changes nothing, the id is not found afterwards, and removing an id
  that is absent succeeds and leaves the registry as it was.
\<close>

theorem remove_idempotent:
  "(\<exists>r1. remove reg i = Inr r1 \<and> remove r1 i = Inr r1 \<and> get r1 i = Inl UnknownOperation)
   \<and> (records reg i = None \<and> pending reg i = None \<longrightarrow> remove reg i = Inr reg)"
  by (auto simp: remove_def get_def fun_upd_idem)

theorem remove_idempotent_witness:
  "(\<exists>r1. remove sample_registry 0 = Inr r1 \<and> remove r1 0 = Inr r1
       \<and> get r1 0 = Inl UnknownOperation)
   \<and> remove sample_registry 7 = Inr sample_registry"
proof -
  have "records sample_registry 7 = None \<and> pending sample_registry 7 = None"
    by (simp add: sample_registry_def sample_history_run transition_def Let_def)
  with remove_idempotent [of sample_registry 7] remove_idempotent [of sample_registry 0]
  show ?thesis by simp
qed

section \<open>The observer's view over time\<close>







lemma now_ticks: "now (run reg (replicate n ETick)) = now reg + n"
  by (induction n arbitrary: reg) (simp_all add: tick_def Let_def)









end
